theory Spec2Isabelle
  imports Main "HOL-Library.Word"
begin

section \<open>The relay controller of \<^verbatim>\<open>src/main.c\<close>\<close>

text \<open>
  The program drives up to 16 relays from MQTT messages. It talks to two libraries,
  wiringPi (the pins) and mosquitto (the transport). The model observes the program at
  that boundary: a run is the list of library calls it makes, in order. Console output
  (\<^verbatim>\<open>printf\<close>) and the computation of the settings file's path
  (\<^verbatim>\<open>parseWorkingDir\<close>, \<^verbatim>\<open>displayHeader\<close>) are not part of the model;
  the outcome of \<^verbatim>\<open>fopen\<close> is an input.
\<close>

subsection \<open>Library calls\<close>

type_synonym u8 = "8 word"

text \<open>
  \<^verbatim>\<open>HIGH\<close>, \<^verbatim>\<open>LOW\<close> and \<^verbatim>\<open>OUTPUT\<close> are macros of
  \<^verbatim>\<open>wiringPi.h\<close>, which is not among the sources; they are kept symbolic.
\<close>

datatype level = LOW | HIGH

datatype pin_mode = INPUT | OUTPUT

datatype call =
    WiringPiSetup
  | PinMode int pin_mode
  | DigitalWrite int level
  | MosqLibInit
  | MosqNew
  | ConnectCallbackSet
  | SubscribeCallbackSet
  | MessageCallbackSet
  | MosqConnect string int int
  | MosqDestroy
  | MosqLoopForever
  | MosqLibCleanup

text \<open>The last level written to a pin and the last mode given to it in a run.\<close>

fun last_level :: "call list \<Rightarrow> int \<Rightarrow> level option" where
  "last_level [] p = None"
| "last_level (c # cs) p =
     (case last_level cs p of
        Some l \<Rightarrow> Some l
      | None \<Rightarrow> (case c of DigitalWrite q l \<Rightarrow> if q = p then Some l else None | _ \<Rightarrow> None))"

fun last_mode :: "call list \<Rightarrow> int \<Rightarrow> pin_mode option" where
  "last_mode [] p = None"
| "last_mode (c # cs) p =
     (case last_mode cs p of
        Some m \<Rightarrow> Some m
      | None \<Rightarrow> (case c of PinMode q m \<Rightarrow> if q = p then Some m else None | _ \<Rightarrow> None))"

text \<open>The pins written in a run, in order.\<close>

fun written_pins :: "call list \<Rightarrow> int list" where
  "written_pins [] = []"
| "written_pins (DigitalWrite p l # cs) = p # written_pins cs"
| "written_pins (c # cs) = written_pins cs"

subsection \<open>\<^verbatim>\<open>on_message\<close>\<close>

text \<open>
  The message is its payload, a list of bytes whose length is \<^verbatim>\<open>payloadlen\<close>.
  The callback writes through \<^verbatim>\<open>msg->payload\<close>, so the model returns the
  buffer as the callback leaves it, together with the calls made.
  \<^verbatim>\<open>*pin > 0 && *pin <= 16\<close> compares a \<^verbatim>\<open>uint8_t\<close>: the order on
  \<^typ>\<open>u8\<close> is the unsigned one.
\<close>

definition on_message :: "u8 list \<Rightarrow> u8 list \<times> call list" where
  "on_message payload =
     (if length payload = 2 then
        (let pin = payload ! 0 in
         if pin > 0 \<and> pin \<le> 16 then
           (let payload' = payload[0 := pin - 1];
                level = payload' ! 1;
                value = (if level = 0 then HIGH else LOW)
            in (payload', [DigitalWrite (uint (payload' ! 0)) value]))
         else (payload, []))
      else (payload, []))"

subsection \<open>The message protocol as the specification words it\<close>

text \<open>
  The specification splits the callback into a decoder and a relay controller. These
  definitions follow its words; they are compared with \<^const>\<open>on_message\<close> below.
\<close>

datatype decode_failure = InvalidLength | ChannelOutOfRange

record relay_command =
  channel :: nat
  desiredState :: bool

definition spec_decode :: "u8 list \<Rightarrow> decode_failure + relay_command" where
  "spec_decode payload =
     (if length payload \<noteq> 2 then Inl InvalidLength
      else if payload ! 0 = 0 \<or> payload ! 0 > 16 then Inl ChannelOutOfRange
      else Inr \<lparr>channel = unat (payload ! 0), desiredState = (payload ! 1 \<noteq> 0)\<rparr>)"

definition spec_apply :: "relay_command \<Rightarrow> call list" where
  "spec_apply cmd =
     [DigitalWrite (int (channel cmd) - 1) (if desiredState cmd then LOW else HIGH)]"

definition spec_handle :: "u8 list \<Rightarrow> call list" where
  "spec_handle payload =
     (case spec_decode payload of Inl failure \<Rightarrow> [] | Inr cmd \<Rightarrow> spec_apply cmd)"

subsection \<open>\<^verbatim>\<open>readSettings\<close>\<close>

text \<open>
  \<^verbatim>\<open>g_Topic\<close> and \<^verbatim>\<open>g_Broker\<close> are static buffers; the record holds the
  C strings in them. Both start zeroed, that is, as the empty string.
\<close>

record globals =
  g_Topic :: string
  g_Broker :: string

definition initial_globals :: globals where
  "initial_globals = \<lparr>g_Topic = [], g_Broker = []\<rparr>"

definition BUFFSIZE :: nat where
  "BUFFSIZE = 50"

text \<open>
  What the C standard leaves undefined and the code can reach: the store to
  \<^verbatim>\<open>buffer[-1]\<close> when \<^verbatim>\<open>strlen(buffer)\<close> is 0, and
  \<^verbatim>\<open>strlen(NULL)\<close> when \<^verbatim>\<open>strtok\<close> finds no token.
\<close>

datatype fault = StoreBeforeBuffer | NullPointerRead

text \<open>
  A buffer filled by \<^verbatim>\<open>fgets\<close> is modelled by the characters stored before the
  terminator. They may include NUL bytes read from the file, so the C string in the
  buffer ends at the first of them.
\<close>

definition strlen :: "string \<Rightarrow> nat" where
  "strlen buffer = length (takeWhile (\<lambda>c. c \<noteq> CHR 0x00) buffer)"

text \<open>
  \<^verbatim>\<open>fgets(buffer, n, fp)\<close>: at most \<open>n - 1\<close> characters, stopping after a
  newline; NULL at the end of the file. The stream is the text not yet read.
\<close>

fun fgets_take :: "nat \<Rightarrow> string \<Rightarrow> string \<times> string" where
  "fgets_take 0 fp = ([], fp)"
| "fgets_take (Suc n) [] = ([], [])"
| "fgets_take (Suc n) (c # fp) =
     (if c = CHR 0x0A then ([c], fp)
      else (case fgets_take n fp of (buffer, fp') \<Rightarrow> (c # buffer, fp')))"

definition fgets :: "nat \<Rightarrow> string \<Rightarrow> (string \<times> string) option" where
  "fgets n fp = (if fp = [] then None else Some (fgets_take (n - 1) fp))"

text \<open>
  \<^verbatim>\<open>strtok(s, " ")\<close> on a C string: skip the delimiters, fail if nothing is left,
  else cut the token at the next delimiter. The second component is where the next
  \<^verbatim>\<open>strtok(NULL, " ")\<close> resumes.
\<close>

definition strtok :: "string \<Rightarrow> (string \<times> string) option" where
  "strtok s =
     (let s' = dropWhile (\<lambda>c. c = CHR '' '') s in
      if s' = [] then None
      else Some (takeWhile (\<lambda>c. c \<noteq> CHR '' '') s', drop 1 (dropWhile (\<lambda>c. c \<noteq> CHR '' '') s')))"

text \<open>\<^verbatim>\<open>toupper\<close> in the C locale (the program never calls \<^verbatim>\<open>setlocale\<close>).\<close>

definition toupper :: "char \<Rightarrow> char" where
  "toupper c =
     (let n = (of_char c :: nat) in if 97 \<le> n \<and> n \<le> 122 then char_of (n - 32) else c)"

text \<open>
  \<^verbatim>\<open>pos = strlen(buffer) - 1; buffer[pos] = 0;\<close> The result is the C string left
  in the buffer.
\<close>

definition strip_last :: "string \<Rightarrow> fault + string" where
  "strip_last buffer =
     (let n = strlen buffer in
      if n = 0 then Inl StoreBeforeBuffer else Inr (take (n - 1) buffer))"

text \<open>The rest of the loop body, on the C string \<open>line\<close> left in the buffer.\<close>

definition parse_line :: "string \<Rightarrow> globals \<Rightarrow> fault + globals" where
  "parse_line line g =
     (if length line > 0 then
        if hd line \<noteq> CHR ''#'' then
          (case strtok line of
             None \<Rightarrow> Inl NullPointerRead
           | Some (pchar, rest) \<Rightarrow>
               (let label = map toupper pchar in
                if label = ''TOPIC'' then
                  (case strtok rest of
                     None \<Rightarrow> Inr g
                   | Some (v, _) \<Rightarrow> Inr (g\<lparr>g_Topic := v\<rparr>))
                else if label = ''BROKER'' then
                  (case strtok rest of
                     None \<Rightarrow> Inr g
                   | Some (v, _) \<Rightarrow> Inr (g\<lparr>g_Broker := v\<rparr>))
                else Inr g))
        else Inr g
      else Inr g)"

lemma fgets_take_le: "length (snd (fgets_take n fp)) \<le> length fp"
  by (induction n fp rule: fgets_take.induct) (auto split: prod.splits)

lemma fgets_take_shorter:
  "fp \<noteq> [] \<Longrightarrow> length (snd (fgets_take (Suc n) fp)) < length fp"
proof (cases fp)
  case Nil
  assume "fp \<noteq> []"
  with Nil show ?thesis by simp
next
  case (Cons c cs)
  with fgets_take_le [of n cs] show ?thesis
    by (auto split: prod.splits)
qed

lemma fgets_shorter:
  "fgets BUFFSIZE fp = Some (buffer, fp') \<Longrightarrow> length fp' < length fp"
  using fgets_take_shorter [of fp 48]
  by (auto simp: fgets_def BUFFSIZE_def split: if_splits)

function read_lines :: "string \<Rightarrow> globals \<Rightarrow> fault + globals" where
  "read_lines fp g =
     (case fgets BUFFSIZE fp of
        None \<Rightarrow> Inr g
      | Some (buffer, fp') \<Rightarrow>
          (case strip_last buffer of
             Inl e \<Rightarrow> Inl e
           | Inr line \<Rightarrow>
               (case parse_line line g of
                  Inl e \<Rightarrow> Inl e
                | Inr g' \<Rightarrow> read_lines fp' g')))"
  by pat_completeness auto
termination
  by (relation "measure (\<lambda>(fp, g). length fp)") (auto dest: fgets_shorter)

text \<open>
  \<open>file\<close> is what \<^verbatim>\<open>fopen\<close> gave: \<open>None\<close> for NULL, else the text of the
  file. The boolean is the function's return value.
\<close>

definition readSettings :: "string option \<Rightarrow> globals \<Rightarrow> fault + (bool \<times> globals)" where
  "readSettings file g =
     (case file of
        None \<Rightarrow> Inr (False, g\<lparr>g_Topic := ''relays'', g_Broker := ''192.168.0.1''\<rparr>)
      | Some fp \<Rightarrow>
          (case read_lines fp g of Inl e \<Rightarrow> Inl e | Inr g' \<Rightarrow> Inr (True, g')))"

subsection \<open>\<^verbatim>\<open>gpioSetup\<close> and \<^verbatim>\<open>main\<close>\<close>

function gpio_loop :: "int \<Rightarrow> call list" where
  "gpio_loop i =
     (if i < 16 then PinMode i OUTPUT # DigitalWrite i HIGH # gpio_loop (i + 1) else [])"
  by pat_completeness auto
termination
  by (relation "measure (\<lambda>i. nat (16 - i))") auto

text \<open>\<open>rc\<close> is what \<^verbatim>\<open>wiringPiSetup()\<close> returned.\<close>

definition gpioSetup :: "int \<Rightarrow> call list" where
  "gpioSetup rc = WiringPiSetup # (if rc = 0 then gpio_loop 0 else [])"

text \<open>
  What the libraries and the file system answer during one run of \<^verbatim>\<open>main\<close>.
\<close>

record env =
  settings_file :: "string option"
  wiringPiSetup_rc :: int
  mosquitto_new_ok :: bool
  mosquitto_connect_ok :: bool
  loop_returns :: bool

text \<open>
  \<^verbatim>\<open>main\<close> after \<^verbatim>\<open>readSettings\<close>: the calls made and the exit status,
  \<open>None\<close> when \<^verbatim>\<open>mosquitto_loop_forever\<close> does not return.
\<close>

definition main_after_settings :: "env \<Rightarrow> globals \<Rightarrow> call list \<times> int option" where
  "main_after_settings e g =
     (let t1 = gpioSetup (wiringPiSetup_rc e) @ [MosqLibInit, MosqNew] in
      if \<not> mosquitto_new_ok e then (t1, Some 1)
      else
        (let t2 = t1 @ [ConnectCallbackSet, SubscribeCallbackSet, MessageCallbackSet,
                        MosqConnect (g_Broker g) 1883 60] in
         if \<not> mosquitto_connect_ok e then (t2 @ [MosqDestroy], Some 1)
         else if loop_returns e then (t2 @ [MosqLoopForever, MosqLibCleanup], Some 0)
         else (t2 @ [MosqLoopForever], None)))"

definition main :: "env \<Rightarrow> fault + (call list \<times> int option)" where
  "main e =
     (case readSettings (settings_file e) initial_globals of
        Inl f \<Rightarrow> Inl f
      | Inr (result, g) \<Rightarrow> Inr (main_after_settings e g))"

text \<open>
  The calls of a run that come before the first \<^verbatim>\<open>mosquitto_connect\<close>, all of
  them if there is none.
\<close>

fun is_connect :: "call \<Rightarrow> bool" where
  "is_connect (MosqConnect host port keepalive) = True"
| "is_connect c = False"

definition before_connect :: "call list \<Rightarrow> call list" where
  "before_connect tr = takeWhile (\<lambda>c. \<not> is_connect c) tr"

declare read_lines.simps [simp del]

declare gpio_loop.simps [simp del]

section \<open>Properties of the message callback\<close>

lemma uint_pred: "0 < (c::u8) \<Longrightarrow> uint (c - 1) = uint c - 1"
proof -
  assume "0 < c"
  then have "1 \<le> c" by (simp add: word_le_def word_less_def)
  then show ?thesis by (simp add: uint_minus_simple_alt)
qed

lemma channel_pos: "1 \<le> (c::u8) \<longleftrightarrow> 0 < c"
  by (auto simp add: word_le_def word_less_def)

lemma channel_range: "0 < (c::u8) \<Longrightarrow> c \<le> 16 \<Longrightarrow> 1 \<le> uint c \<and> uint c \<le> 16"
  by (simp add: word_le_def word_less_def)

lemma on_message_valid:
  "0 < c \<Longrightarrow> c \<le> 16 \<Longrightarrow>
   on_message [c, s] =
     ([c - 1, s], [DigitalWrite (uint c - 1) (if s = 0 then HIGH else LOW)])"
  by (simp add: on_message_def uint_pred)

lemma on_message_bad_length:
  "length payload \<noteq> 2 \<Longrightarrow> on_message payload = (payload, [])"
  by (simp add: on_message_def)

lemma on_message_bad_channel:
  "length payload = 2 \<Longrightarrow> payload ! 0 = 0 \<or> payload ! 0 > 16 \<Longrightarrow>
   on_message payload = (payload, [])"
  by (auto simp: on_message_def Let_def)

lemma spec_decode_valid:
  "0 < c \<Longrightarrow> c \<le> 16 \<Longrightarrow>
   spec_decode [c, s] = Inr \<lparr>channel = unat c, desiredState = (s \<noteq> 0)\<rparr>"
  by (auto simp: spec_decode_def)

lemma pin_index_bij: "bij_betw (\<lambda>c::u8. uint c - 1) {1..16} {0..15}"
proof (rule bij_betwI')
  fix x y :: u8
  show "(uint x - 1 = uint y - 1) = (x = y)"
    by (auto simp: word_uint_eq_iff)
next
  fix x :: u8
  assume "x \<in> {1..16}"
  then show "uint x - 1 \<in> {0..15}"
    using channel_range [of x] by (simp add: channel_pos)
next
  fix k :: int
  assume k: "k \<in> {0..15}"
  let ?c = "word_of_int (k + 1) :: u8"
  have u: "uint ?c = k + 1"
    using k by (simp only: uint_word_of_int) simp
  then have "1 \<le> ?c \<and> ?c \<le> 16"
    using k by (simp add: word_le_def)
  then have mem: "?c \<in> {1..16}"
    by simp
  from u have eq: "k = uint ?c - 1"
    by simp
  from mem show "\<exists>x\<in>{1..16::u8}. k = uint x - 1"
    by (rule rev_bexI) (rule eq)
qed

text \<open>
  C1. A 2-byte payload \<open>[c, s]\<close> with \<open>c\<close> in 1..16 decodes to channel \<open>c\<close> and
  desired state \<open>s \<noteq> 0\<close>; the callback makes exactly one library call, a write to
  pin \<open>c - 1\<close>, which is what the specification's decoder and controller give; and
  the pin written, as a function of the channel byte, maps 1..16 one-to-one onto 0..15.
\<close>

theorem valid_payload_writes_one_pin:
  fixes c s :: u8
  assumes "1 \<le> c" and "c \<le> 16"
  shows "spec_decode [c, s] = Inr \<lparr>channel = unat c, desiredState = (s \<noteq> 0)\<rparr>
       \<and> snd (on_message [c, s]) = spec_handle [c, s]
       \<and> written_pins (snd (on_message [c, s])) = [uint c - 1]
       \<and> length (snd (on_message [c, s])) = 1
       \<and> bij_betw (\<lambda>k. hd (written_pins (snd (on_message [k, s])))) {1..16} {0..15}"
proof -
  from assms have c: "0 < c" "c \<le> 16"
    by (simp_all add: channel_pos)
  have decode: "spec_decode [c, s] = Inr \<lparr>channel = unat c, desiredState = (s \<noteq> 0)\<rparr>"
    using c by (rule spec_decode_valid)
  have run: "snd (on_message [c, s]) =
      [DigitalWrite (uint c - 1) (if s = 0 then HIGH else LOW)]"
    using c by (simp add: on_message_valid)
  have handle: "spec_handle [c, s] =
      [DigitalWrite (uint c - 1) (if s = 0 then HIGH else LOW)]"
    by (simp add: spec_handle_def decode spec_apply_def)
  have "bij_betw (\<lambda>k. hd (written_pins (snd (on_message [k, s])))) {1..16} {0..15}
      \<longleftrightarrow> bij_betw (\<lambda>k::u8. uint k - 1) {1..16} {0..15}"
    by (rule bij_betw_cong) (simp add: channel_pos on_message_valid)
  then have "bij_betw (\<lambda>k. hd (written_pins (snd (on_message [k, s])))) {1..16} {0..15}"
    by (simp add: pin_index_bij)
  with decode run handle show ?thesis
    by simp
qed

theorem valid_payload_writes_one_pin_witness:
  "(1::u8) \<le> 16 \<and> (16::u8) \<le> 16
   \<and> spec_decode [16, 0] = Inr \<lparr>channel = 16, desiredState = False\<rparr>
   \<and> snd (on_message [16, 0]) = [DigitalWrite 15 HIGH]
   \<and> written_pins (snd (on_message [16, 0])) = [15]
   \<and> length (snd (on_message [16, 0])) = 1"
  using valid_payload_writes_one_pin [of 16 0]
  by (simp add: spec_handle_def spec_decode_def spec_apply_def)

text \<open>
  C2. The level written is the inverse of the desired state: a state byte other than 0
  drives the pin LOW, the state byte 0 drives it HIGH, on each of the 16 channels.
\<close>

theorem level_is_inverted:
  fixes c s :: u8
  assumes "1 \<le> c" and "c \<le> 16"
  shows "(s \<noteq> 0 \<longrightarrow> snd (on_message [c, s]) = [DigitalWrite (uint c - 1) LOW])
       \<and> (s = 0 \<longrightarrow> snd (on_message [c, s]) = [DigitalWrite (uint c - 1) HIGH])
       \<and> last_level (snd (on_message [c, s])) (uint c - 1)
           = Some (if s \<noteq> 0 then LOW else HIGH)"
  using assms by (simp add: channel_pos on_message_valid)

theorem level_is_inverted_witness:
  "(1::u8) \<le> 3 \<and> (3::u8) \<le> 16
   \<and> snd (on_message [3, 255]) = [DigitalWrite 2 LOW]
   \<and> last_level (snd (on_message [3, 255])) 2 = Some LOW"
  using level_is_inverted [of 3 255] by simp

text \<open>
  C3. A payload whose length is not 2 is an \<open>InvalidLength\<close> for the
  specification's decoder; the callback makes no library call, so no pin is written,
  and it leaves the payload as it was.
\<close>

theorem wrong_length_is_dropped:
  assumes "length payload \<noteq> 2"
  shows "spec_decode payload = Inl InvalidLength
       \<and> on_message payload = (payload, [])
       \<and> snd (on_message payload) = spec_handle payload"
  using assms by (simp add: spec_decode_def spec_handle_def on_message_bad_length)

theorem wrong_length_is_dropped_witness:
  "length [1, 1, 1 :: u8] \<noteq> 2
   \<and> spec_decode [1, 1, 1] = Inl InvalidLength
   \<and> on_message [1, 1, 1] = ([1, 1, 1], [])"
  using wrong_length_is_dropped [of "[1, 1, 1]"] by simp

text \<open>
  C4. A 2-byte payload whose first byte is 0 or above 16 is a
  \<open>ChannelOutOfRange\<close> for the specification's decoder; the callback drops it:
  no library call, no pin written.
\<close>

theorem bad_channel_is_dropped:
  fixes c s :: u8
  assumes "c = 0 \<or> c > 16"
  shows "spec_decode [c, s] = Inl ChannelOutOfRange
       \<and> on_message [c, s] = ([c, s], [])
       \<and> snd (on_message [c, s]) = spec_handle [c, s]"
proof -
  have "on_message [c, s] = ([c, s], [])"
    using assms by (intro on_message_bad_channel) simp_all
  moreover have "spec_decode [c, s] = Inl ChannelOutOfRange"
    using assms by (auto simp: spec_decode_def)
  ultimately show ?thesis
    by (simp add: spec_handle_def)
qed

theorem bad_channel_is_dropped_witness:
  "((0::u8) = 0 \<or> (0::u8) > 16)
   \<and> spec_decode [0, 1] = Inl ChannelOutOfRange
   \<and> on_message [0, 1] = ([0, 1], [])"
  using bad_channel_is_dropped [of 0 1] by simp

text \<open>
  C9. The callback writes into the caller's buffer: for a valid 2-byte payload byte 0
  is the channel less one afterwards; a payload that fails the length check or the
  range check is unchanged. So there is a payload that the callback does not leave
  as it found it.
\<close>

theorem payload_is_decremented_in_place:
  fixes c s :: u8
  shows "(1 \<le> c \<and> c \<le> 16 \<longrightarrow> fst (on_message [c, s]) = [c - 1, s])
       \<and> (length payload \<noteq> 2 \<longrightarrow> fst (on_message payload) = payload)
       \<and> (c = 0 \<or> c > 16 \<longrightarrow> fst (on_message [c, s]) = [c, s])
       \<and> fst (on_message [1, 1]) \<noteq> [1, 1]"
proof -
  have "fst (on_message [c, s]) = [c - 1, s]" if "1 \<le> c \<and> c \<le> 16"
    using that by (simp add: channel_pos on_message_valid)
  moreover have "fst (on_message payload) = payload" if "length payload \<noteq> 2"
    using that by (simp add: on_message_bad_length)
  moreover have "fst (on_message [c, s]) = [c, s]" if "c = 0 \<or> c > 16"
    using that on_message_bad_channel [of "[c, s]"] by simp
  moreover have "fst (on_message [1, 1]) \<noteq> [1, 1]"
    by (simp add: on_message_valid)
  ultimately show ?thesis
    by blast
qed

theorem payload_is_decremented_in_place_witness:
  "(1::u8) \<le> 16 \<and> (16::u8) \<le> 16 \<and> fst (on_message [16, 0]) = [15, 0]
   \<and> length [1, 1, 1 :: u8] \<noteq> 2 \<and> fst (on_message [1, 1, 1]) = [1, 1, 1]
   \<and> (17::u8) > 16 \<and> fst (on_message [17, 0]) = [17, 0]"
  using payload_is_decremented_in_place [of 16 0 "[1, 1, 1]"]
    payload_is_decremented_in_place [of 17 0 "[]"]
  by simp

section \<open>Properties of settings resolution\<close>

subsection \<open>Reading lines\<close>

text \<open>
  A short text without a newline is read whole; a short line is read up to and with its
  newline; and a text that ends in a newline is read in the same pieces whatever follows
  it, so the loop over it can be run first and the loop over the rest afterwards.
\<close>

lemma strlen_no_nul: "CHR 0x00 \<notin> set s \<Longrightarrow> strlen s = length s"
  by (induction s) (auto simp: strlen_def)

lemma fgets_take_all:
  "CHR 0x0A \<notin> set s \<Longrightarrow> length s \<le> n \<Longrightarrow> fgets_take n s = (s, [])"
  by (induction n s rule: fgets_take.induct) auto

lemma fgets_take_line:
  "CHR 0x0A \<notin> set l \<Longrightarrow> length l < n \<Longrightarrow>
   fgets_take n (l @ CHR 0x0A # rest) = (l @ [CHR 0x0A], rest)"
  by (induction n l rule: fgets_take.induct) auto

lemma fgets_take_append:
  "fp \<noteq> [] \<Longrightarrow> last fp = CHR 0x0A \<Longrightarrow>
   fgets_take n (fp @ rest) = (fst (fgets_take n fp), snd (fgets_take n fp) @ rest)
   \<and> (snd (fgets_take n fp) = [] \<or> last (snd (fgets_take n fp)) = CHR 0x0A)"
  by (induction n fp rule: fgets_take.induct) (auto split: prod.splits if_splits)

lemma read_lines_Nil: "read_lines [] g = Inr g"
  by (simp add: read_lines.simps fgets_def)

lemma read_lines_append:
  "fp = [] \<or> last fp = CHR 0x0A \<Longrightarrow>
   read_lines (fp @ rest) g =
     (case read_lines fp g of Inl e \<Rightarrow> Inl e | Inr g1 \<Rightarrow> read_lines rest g1)"
proof (induction fp g rule: read_lines.induct)
  case (1 fp g)
  show ?case
  proof (cases "fp = []")
    case True
    then show ?thesis by (simp add: read_lines_Nil)
  next
    case False
    with "1.prems" have l: "last fp = CHR 0x0A" by simp
    obtain buffer fp' where f: "fgets_take 49 fp = (buffer, fp')"
      by (cases "fgets_take 49 fp")
    from fgets_take_append [OF False l, of 49 rest] f
    have a: "fgets_take 49 (fp @ rest) = (buffer, fp' @ rest)"
      and b: "fp' = [] \<or> last fp' = CHR 0x0A" by simp_all
    from False f have g1: "fgets BUFFSIZE fp = Some (buffer, fp')"
      by (simp add: fgets_def BUFFSIZE_def)
    from False a have g2: "fgets BUFFSIZE (fp @ rest) = Some (buffer, fp' @ rest)"
      by (simp add: fgets_def BUFFSIZE_def)
    show ?thesis
    proof (cases "strip_last buffer")
      case (Inl e)
      with g1 g2 show ?thesis
        by (simp add: read_lines.simps [of fp] read_lines.simps [of "fp @ rest"])
    next
      case (Inr line)
      note s = this
      show ?thesis
      proof (cases "parse_line line g")
        case (Inl e)
        with g1 g2 s show ?thesis
          by (simp add: read_lines.simps [of fp] read_lines.simps [of "fp @ rest"])
      next
        case (Inr g')
        from "1.IH" [OF g1 refl s Inr b] g1 g2 s Inr show ?thesis
          by (simp add: read_lines.simps [of fp] read_lines.simps [of "fp @ rest"])
      qed
    qed
  qed
qed

text \<open>
  What a line does is fixed by the line alone: it faults, leaves the globals alone, or
  stores one token in one of the two buffers. Hence a run that ended in \<open>g'\<close> ends
  in \<open>g'\<close> again from any state that agrees, field by field, with where it started or
  with where it ended.
\<close>

lemma parse_line_shape:
  "(\<exists>e. \<forall>g. parse_line line g = Inl e)
   \<or> (\<forall>g. parse_line line g = Inr g)
   \<or> (\<exists>v. \<forall>g. parse_line line g = Inr (g\<lparr>g_Topic := v\<rparr>))
   \<or> (\<exists>v. \<forall>g. parse_line line g = Inr (g\<lparr>g_Broker := v\<rparr>))"
proof (cases "line = [] \<or> hd line = CHR ''#''")
  case True
  then have "\<forall>g. parse_line line g = Inr g"
    by (auto simp: parse_line_def)
  then show ?thesis by blast
next
  case False
  note body = this
  show ?thesis
  proof (cases "strtok line")
    case None
    with body have "\<forall>g. parse_line line g = Inl NullPointerRead"
      by (simp add: parse_line_def)
    then show ?thesis by blast
  next
    case (Some tok)
    obtain pchar rest where tok: "tok = (pchar, rest)"
      by (cases tok)
    show ?thesis
    proof (cases "strtok rest")
      case None
      with body Some tok have "\<forall>g. parse_line line g = Inr g"
        by (simp add: parse_line_def Let_def)
      then show ?thesis by blast
    next
      case (Some tok')
      obtain v rest' where tok': "tok' = (v, rest')"
        by (cases tok')
      consider (topic) "map toupper pchar = ''TOPIC''"
        | (broker) "map toupper pchar \<noteq> ''TOPIC''" "map toupper pchar = ''BROKER''"
        | (other) "map toupper pchar \<noteq> ''TOPIC''" "map toupper pchar \<noteq> ''BROKER''"
        by blast
      then show ?thesis
      proof cases
        case topic
        with body \<open>strtok line = Some tok\<close> tok Some tok'
        have "\<forall>g. parse_line line g = Inr (g\<lparr>g_Topic := v\<rparr>)"
          by (simp add: parse_line_def Let_def)
        then show ?thesis by blast
      next
        case broker
        with body \<open>strtok line = Some tok\<close> tok Some tok'
        have "\<forall>g. parse_line line g = Inr (g\<lparr>g_Broker := v\<rparr>)"
          by (simp add: parse_line_def Let_def)
        then show ?thesis by blast
      next
        case other
        with body \<open>strtok line = Some tok\<close> tok Some tok'
        have "\<forall>g. parse_line line g = Inr g"
          by (simp add: parse_line_def Let_def)
        then show ?thesis by blast
      qed
    qed
  qed
qed

lemma read_lines_rerun:
  "read_lines fp g = Inr g' \<Longrightarrow>
   g_Topic h = g_Topic g \<or> g_Topic h = g_Topic g' \<Longrightarrow>
   g_Broker h = g_Broker g \<or> g_Broker h = g_Broker g' \<Longrightarrow>
   read_lines fp h = Inr g'"
proof (induction fp g arbitrary: h rule: read_lines.induct)
  case (1 fp g)
  show ?case
  proof (cases "fgets BUFFSIZE fp")
    case None
    with "1.prems" show ?thesis
      by (auto simp: read_lines.simps [of fp])
  next
    case (Some x)
    then obtain buffer fp' where f: "fgets BUFFSIZE fp = Some (buffer, fp')"
      by (cases x) auto
    from "1.prems"(1) f obtain line where s: "strip_last buffer = Inr line"
      by (auto simp: read_lines.simps [of fp] split: sum.splits)
    from "1.prems"(1) f s obtain g1 where p: "parse_line line g = Inr g1"
      and r: "read_lines fp' g1 = Inr g'"
      by (auto simp: read_lines.simps [of fp] split: sum.splits)
    have "\<exists>h1. parse_line line h = Inr h1
        \<and> (g_Topic h1 = g_Topic g1 \<or> g_Topic h1 = g_Topic g')
        \<and> (g_Broker h1 = g_Broker g1 \<or> g_Broker h1 = g_Broker g')"
      using parse_line_shape [of line] p "1.prems"(2,3)
      by (elim disjE exE) auto
    then obtain h1 where ph: "parse_line line h = Inr h1"
      and t: "g_Topic h1 = g_Topic g1 \<or> g_Topic h1 = g_Topic g'"
      and b: "g_Broker h1 = g_Broker g1 \<or> g_Broker h1 = g_Broker g'"
      by blast
    from "1.IH" [OF f refl s p r t b] f s ph show ?thesis
      by (simp add: read_lines.simps [of fp])
  qed
qed

subsection \<open>Tokens and labels\<close>

text \<open>
  A word without spaces is one token. A word that upper-cases to a recognised label has
  neither a space, a newline, NUL nor \<open>#\<close> in it.
\<close>

lemma takeWhile_no_space:
  "CHR '' '' \<notin> set w \<Longrightarrow>
   takeWhile (\<lambda>c. c \<noteq> CHR '' '') (w @ r) = w @ takeWhile (\<lambda>c. c \<noteq> CHR '' '') r"
  by (induction w) auto

lemma dropWhile_no_space:
  "CHR '' '' \<notin> set w \<Longrightarrow>
   dropWhile (\<lambda>c. c \<noteq> CHR '' '') (w @ r) = dropWhile (\<lambda>c. c \<noteq> CHR '' '') r"
  by (induction w) auto

lemma strtok_label:
  assumes "w \<noteq> []" and "CHR '' '' \<notin> set w"
  shows "strtok (w @ CHR '' '' # rest) = Some (w, rest)"
proof -
  from assms have "dropWhile (\<lambda>c. c = CHR '' '') (w @ CHR '' '' # rest) = w @ CHR '' '' # rest"
    by (cases w) auto
  with assms show ?thesis
    by (simp add: strtok_def takeWhile_no_space dropWhile_no_space)
qed

lemma strtok_word:
  assumes "w \<noteq> []" and "CHR '' '' \<notin> set w"
  shows "strtok w = Some (w, [])"
proof -
  from assms have a: "dropWhile (\<lambda>c. c = CHR '' '') w = w"
    by (cases w) auto
  from assms(2) have t: "takeWhile (\<lambda>c. c \<noteq> CHR '' '') w = w"
    using takeWhile_no_space [of w "[]"] by simp
  from assms(2) have d: "dropWhile (\<lambda>c. c \<noteq> CHR '' '') w = []"
    using dropWhile_no_space [of w "[]"] by simp
  show ?thesis
    unfolding strtok_def Let_def a t d using assms(1) by simp
qed

lemma strtok_Nil: "strtok [] = None"
  by (simp add: strtok_def)

lemma take_takeWhile:
  "n \<le> length (takeWhile P xs) \<Longrightarrow> take n (takeWhile P xs) = take n xs"
  by (induction xs arbitrary: n) (auto simp: take_Cons' split: if_splits)

lemma toupper_fixed:
  "toupper (CHR '' '') = CHR '' ''" "toupper (CHR 0x00) = CHR 0x00"
  "toupper (CHR 0x0A) = CHR 0x0A" "toupper (CHR ''#'') = CHR ''#''"
  by (simp_all add: toupper_def)

lemma label_chars:
  assumes "map toupper l = ''TOPIC'' \<or> map toupper l = ''BROKER''"
  shows "l \<noteq> [] \<and> hd l \<noteq> CHR ''#'' \<and> CHR '' '' \<notin> set l \<and> CHR 0x00 \<notin> set l
       \<and> CHR 0x0A \<notin> set l \<and> length l \<le> 6"
proof -
  have "toupper c \<in> set ''TOPIC'' \<union> set ''BROKER''" if "c \<in> set l" for c
  proof -
    from that have "toupper c \<in> set (map toupper l)" by simp
    with assms show ?thesis by auto
  qed
  then have "c \<noteq> CHR '' '' \<and> c \<noteq> CHR 0x00 \<and> c \<noteq> CHR 0x0A \<and> c \<noteq> CHR ''#''"
    if "c \<in> set l" for c
    using that toupper_fixed by fastforce
  moreover from assms have "l \<noteq> []" by auto
  moreover from assms have "length l \<le> 6"
    using length_map [of toupper l] by auto
  ultimately show ?thesis
    by (metis hd_in_set)
qed

lemma parse_line_comment: "parse_line (take k (CHR ''#'' # s)) g = Inr g"
  by (cases k) (simp_all add: parse_line_def)

lemma fgets_one_line:
  "CHR 0x0A \<notin> set l \<Longrightarrow> length l \<le> 48 \<Longrightarrow>
   fgets BUFFSIZE (l @ [CHR 0x0A]) = Some (l @ [CHR 0x0A], [])"
  using fgets_take_line [of l 49 "[]"] by (simp add: fgets_def BUFFSIZE_def)

lemma parse_line_no_value:
  assumes "strtok l = Some (tok, rest)"
    and "strtok rest = None \<or> (map toupper tok \<noteq> ''TOPIC'' \<and> map toupper tok \<noteq> ''BROKER'')"
  shows "parse_line l g = Inr g"
  using assms by (auto simp: parse_line_def Let_def)

lemma read_lines_silent_line:
  assumes nl: "CHR 0x0A \<notin> set l" and len: "length l \<le> 48"
    and shape: "l = [] \<or> hd l = CHR ''#'' \<or>
      (CHR 0x00 \<notin> set l \<and>
       (case strtok l of None \<Rightarrow> False
        | Some (tok, rest) \<Rightarrow>
            strtok rest = None
            \<or> (map toupper tok \<noteq> ''TOPIC'' \<and> map toupper tok \<noteq> ''BROKER'')))"
  shows "read_lines (l @ [CHR 0x0A]) g = Inr g"
proof -
  note f = fgets_one_line [OF nl len]
  from shape consider (blank) "l = []"
    | (comment) s where "l = CHR ''#'' # s"
    | (token) tok rest where "CHR 0x00 \<notin> set l" "strtok l = Some (tok, rest)"
        "strtok rest = None \<or> (map toupper tok \<noteq> ''TOPIC'' \<and> map toupper tok \<noteq> ''BROKER'')"
    by (cases l) (auto split: option.splits)
  then have "\<exists>line. strip_last (l @ [CHR 0x0A]) = Inr line \<and> parse_line line g = Inr g"
  proof cases
    case blank
    then show ?thesis
      by (simp add: strip_last_def strlen_def parse_line_def)
  next
    case comment
    then show ?thesis
      by (simp add: strip_last_def strlen_def parse_line_comment)
  next
    case token
    from token(1) have "strlen (l @ [CHR 0x0A]) = Suc (length l)"
      by (simp add: strlen_no_nul)
    then show ?thesis
      by (simp add: strip_last_def parse_line_no_value [OF token(2,3)])
  qed
  with f show ?thesis
    by (auto simp: read_lines.simps [of "l @ [CHR 0x0A]"] read_lines_Nil)
qed

lemma read_lines_silent:
  assumes "\<forall>l\<in>set ls. CHR 0x0A \<notin> set l \<and> length l \<le> 48 \<and>
      (l = [] \<or> hd l = CHR ''#'' \<or>
       (CHR 0x00 \<notin> set l \<and>
        (case strtok l of None \<Rightarrow> False
         | Some (tok, rest) \<Rightarrow>
             strtok rest = None
             \<or> (map toupper tok \<noteq> ''TOPIC'' \<and> map toupper tok \<noteq> ''BROKER''))))"
  shows "read_lines (concat (map (\<lambda>l. l @ [CHR 0x0A]) ls)) g = Inr g"
  using assms
proof (induction ls)
  case Nil
  show ?case by (simp add: read_lines_Nil)
next
  case (Cons l ls)
  have "read_lines ((l @ [CHR 0x0A]) @ concat (map (\<lambda>l. l @ [CHR 0x0A]) ls)) g =
      (case read_lines (l @ [CHR 0x0A]) g of Inl e \<Rightarrow> Inl e
       | Inr g1 \<Rightarrow> read_lines (concat (map (\<lambda>l. l @ [CHR 0x0A]) ls)) g1)"
    by (rule read_lines_append) simp
  moreover from Cons.prems have "read_lines (l @ [CHR 0x0A]) g = Inr g"
    by (intro read_lines_silent_line) simp_all
  moreover from Cons have "read_lines (concat (map (\<lambda>l. l @ [CHR 0x0A]) ls)) g = Inr g"
    by simp
  ultimately show ?case
    by simp
qed

lemma read_lines_step:
  assumes "fgets BUFFSIZE fp = Some (buffer, fp')" and "0 < strlen buffer"
  shows "read_lines fp g =
      (case parse_line (butlast (takeWhile (\<lambda>c. c \<noteq> CHR 0x00) buffer)) g of
         Inl e \<Rightarrow> Inl e | Inr g' \<Rightarrow> read_lines fp' g')"
proof -
  from assms(2) have "strip_last buffer = Inr (butlast (takeWhile (\<lambda>c. c \<noteq> CHR 0x00) buffer))"
    by (simp add: strip_last_def strlen_def butlast_conv_take take_takeWhile)
  with assms(1) show ?thesis
    by (simp add: read_lines.simps [of fp])
qed


lemma read_lines_unterminated:
  assumes "CHR 0x0A \<notin> set s" and "CHR 0x00 \<notin> set s" and "s \<noteq> []" and "length s \<le> 49"
  shows "read_lines s g = parse_line (butlast s) g"
proof -
  from assms have f: "fgets BUFFSIZE s = Some (s, [])"
    by (simp add: fgets_def BUFFSIZE_def fgets_take_all)
  from assms have n: "0 < strlen s"
    by (simp add: strlen_no_nul)
  from assms(2) have "takeWhile (\<lambda>c. c \<noteq> CHR 0x00) s = s"
    by (induction s) auto
  with read_lines_step [OF f n, of g] show ?thesis
    by (simp add: read_lines_Nil split: sum.splits)
qed

lemma strtok_spaces: "strtok (replicate a (CHR '' '') @ s) = strtok s"
  by (induction a) (simp_all add: strtok_def)

lemma parse_line_tokens:
  assumes "line \<noteq> []" and "hd line \<noteq> CHR ''#''" and "strtok line = Some (tok, rest)"
  shows "parse_line line g =
      (if map toupper tok = ''TOPIC'' then
         (case strtok rest of None \<Rightarrow> Inr g | Some (v, _) \<Rightarrow> Inr (g\<lparr>g_Topic := v\<rparr>))
       else if map toupper tok = ''BROKER'' then
         (case strtok rest of None \<Rightarrow> Inr g | Some (v, _) \<Rightarrow> Inr (g\<lparr>g_Broker := v\<rparr>))
       else Inr g)"
  using assms by (simp add: parse_line_def Let_def)

lemma parse_line_labelled_value:
  assumes lbl: "map toupper lbl = ''TOPIC'' \<or> map toupper lbl = ''BROKER''"
    and w: "CHR '' '' \<notin> set w"
  shows "parse_line (replicate a (CHR '' '') @ lbl @ replicate (Suc b) (CHR '' '') @ w) g =
      Inr (if w = [] then g
           else if map toupper lbl = ''TOPIC'' then g\<lparr>g_Topic := w\<rparr>
           else g\<lparr>g_Broker := w\<rparr>)"
proof -
  define line where "line = replicate a (CHR '' '') @ lbl @ replicate (Suc b) (CHR '' '') @ w"
  define rest where "rest = replicate b (CHR '' '') @ w"
  define u where "u = map toupper lbl"
  from label_chars [OF lbl] have l: "lbl \<noteq> []" "hd lbl \<noteq> CHR ''#''" "CHR '' '' \<notin> set lbl"
    by simp_all
  have ne: "line \<noteq> []"
    using l by (simp add: line_def)
  have hd: "hd line \<noteq> CHR ''#''"
    using l by (cases a) (simp_all add: line_def hd_append)
  have "strtok line = strtok (lbl @ CHR '' '' # rest)"
    by (simp add: line_def rest_def strtok_spaces)
  with l have first: "strtok line = Some (lbl, rest)"
    by (simp add: strtok_label)
  have second: "strtok rest = (if w = [] then None else Some (w, []))"
    using w by (simp add: rest_def strtok_spaces strtok_Nil strtok_word)
  from lbl have u: "u = ''TOPIC'' \<or> u = ''BROKER''"
    by (simp only: u_def)
  have "parse_line line g =
      (if u = ''TOPIC'' then
         (case strtok rest of None \<Rightarrow> Inr g | Some (v, _) \<Rightarrow> Inr (g\<lparr>g_Topic := v\<rparr>))
       else if u = ''BROKER'' then
         (case strtok rest of None \<Rightarrow> Inr g | Some (v, _) \<Rightarrow> Inr (g\<lparr>g_Broker := v\<rparr>))
       else Inr g)"
    unfolding u_def by (rule parse_line_tokens [OF ne hd first])
  also have "\<dots> = Inr (if w = [] then g
           else if u = ''TOPIC'' then g\<lparr>g_Topic := w\<rparr>
           else g\<lparr>g_Broker := w\<rparr>)"
    unfolding second using u by auto
  finally show ?thesis
    by (simp only: line_def u_def)
qed

lemma read_lines_last_labelled:
  assumes lbl: "map toupper lbl = ''TOPIC'' \<or> map toupper lbl = ''BROKER''"
    and v: "CHR 0x0A \<notin> set v" "CHR 0x00 \<notin> set v" "CHR '' '' \<notin> set v" "v \<noteq> []"
    and len: "a + length lbl + Suc b + length v \<le> 49"
  shows "read_lines (replicate a (CHR '' '') @ lbl @ replicate (Suc b) (CHR '' '') @ v) g =
      Inr (if butlast v = [] then g
           else if map toupper lbl = ''TOPIC'' then g\<lparr>g_Topic := butlast v\<rparr>
           else g\<lparr>g_Broker := butlast v\<rparr>)"
proof -
  let ?head = "replicate a (CHR '' '') @ lbl @ replicate (Suc b) (CHR '' '')"
  from label_chars [OF lbl] have l: "CHR 0x0A \<notin> set lbl" "CHR 0x00 \<notin> set lbl"
    by simp_all
  have "read_lines (?head @ v) g = parse_line (butlast (?head @ v)) g"
    using l v len by (intro read_lines_unterminated) auto
  also from v(4) have "butlast (?head @ v) = ?head @ butlast v"
    by (simp add: butlast_append)
  also from v(3) have "CHR '' '' \<notin> set (butlast v)"
    by (auto dest: in_set_butlastD)
  then have "parse_line (?head @ butlast v) g =
      Inr (if butlast v = [] then g
           else if map toupper lbl = ''TOPIC'' then g\<lparr>g_Topic := butlast v\<rparr>
           else g\<lparr>g_Broker := butlast v\<rparr>)"
    using parse_line_labelled_value [OF lbl, of "butlast v" a b g] by simp
  finally show ?thesis
    by simp
qed

subsection \<open>The claims on \<^verbatim>\<open>readSettings\<close>\<close>

text \<open>
  C5, as stated, fails. The defaults are assigned only in the branch where
  \<^verbatim>\<open>fopen\<close> returned NULL. A file that opens and holds one comment line leaves
  both buffers as they were, and at startup they are empty, not the defaults.
\<close>

theorem comment_only_source_counterexample:
  "readSettings (Some ''# comment\<newline>'') initial_globals
     = Inr (True, \<lparr>g_Topic = [], g_Broker = []\<rparr>)
   \<and> readSettings (Some ''# comment\<newline>'') initial_globals
     \<noteq> Inr (True, \<lparr>g_Topic = ''relays'', g_Broker = ''192.168.0.1''\<rparr>)"
  by code_simp

text \<open>
  C5, amended. When the source opens and consists of newline-terminated lines of at
  most 48 characters, each of them empty, starting with \<open>#\<close>, or free of NUL and with
  a first token that is not a recognised label or has no value token after it, then
  resolution succeeds and each field keeps the value it had before; the defaults are
  not assigned. From the startup state both fields come out empty.
\<close>

theorem opened_source_keeps_unset_fields:
  assumes "\<forall>l\<in>set ls. CHR 0x0A \<notin> set l \<and> length l \<le> 48 \<and>
      (l = [] \<or> hd l = CHR ''#'' \<or>
       (CHR 0x00 \<notin> set l \<and>
        (case strtok l of None \<Rightarrow> False
         | Some (tok, rest) \<Rightarrow>
             strtok rest = None
             \<or> (map toupper tok \<noteq> ''TOPIC'' \<and> map toupper tok \<noteq> ''BROKER''))))"
  shows "readSettings (Some (concat (map (\<lambda>l. l @ [CHR 0x0A]) ls))) g = Inr (True, g)
       \<and> readSettings (Some (concat (map (\<lambda>l. l @ [CHR 0x0A]) ls))) initial_globals
           = Inr (True, \<lparr>g_Topic = [], g_Broker = []\<rparr>)"
  using assms read_lines_silent [of ls g] read_lines_silent [of ls initial_globals]
  by (simp add: readSettings_def initial_globals_def)

theorem opened_source_keeps_unset_fields_witness:
  "readSettings
     (Some ''# relay settings\<newline>\<newline>topic\<newline>TOPIC \<newline> broker  \<newline>name x\<newline>'')
     \<lparr>g_Topic = ''t'', g_Broker = ''b''\<rparr>
     = Inr (True, \<lparr>g_Topic = ''t'', g_Broker = ''b''\<rparr>)"
proof -
  have lines: "\<forall>l\<in>set [''# relay settings'', [], ''topic'', ''TOPIC '', '' broker  '', ''name x''].
      CHR 0x0A \<notin> set l \<and> length l \<le> 48 \<and>
      (l = [] \<or> hd l = CHR ''#'' \<or>
       (CHR 0x00 \<notin> set l \<and>
        (case strtok l of None \<Rightarrow> False
         | Some (tok, rest) \<Rightarrow>
             strtok rest = None
             \<or> (map toupper tok \<noteq> ''TOPIC'' \<and> map toupper tok \<noteq> ''BROKER''))))"
    by code_simp
  from opened_source_keeps_unset_fields [OF lines, of "\<lparr>g_Topic = ''t'', g_Broker = ''b''\<rparr>"]
  show ?thesis
    by simp
qed

text \<open>
  C8. Resolving the same source a second time, right after the first, gives the same
  return value and the same topic and broker as the first resolution did.
\<close>

theorem readSettings_idempotent:
  assumes "readSettings file g = Inr (r, g')"
  shows "readSettings file g' = Inr (r, g')"
proof (cases "file")
  case None
  with assms show ?thesis
    by (auto simp: readSettings_def)
next
  case (Some fp)
  with assms have run: "read_lines fp g = Inr g'" and r: "r = True"
    by (auto simp: readSettings_def split: sum.splits)
  from run have "read_lines fp g' = Inr g'"
    by (rule read_lines_rerun) simp_all
  with Some r show ?thesis
    by (simp add: readSettings_def)
qed

theorem readSettings_idempotent_witness:
  "readSettings (Some ''TOPIC office/relays\<newline>BROKER 10.0.0.5\<newline>'') initial_globals
     = Inr (True, \<lparr>g_Topic = ''office/relays'', g_Broker = ''10.0.0.5''\<rparr>)
   \<and> readSettings (Some ''TOPIC office/relays\<newline>BROKER 10.0.0.5\<newline>'')
       \<lparr>g_Topic = ''office/relays'', g_Broker = ''10.0.0.5''\<rparr>
     = Inr (True, \<lparr>g_Topic = ''office/relays'', g_Broker = ''10.0.0.5''\<rparr>)"
proof -
  have first: "readSettings (Some ''TOPIC office/relays\<newline>BROKER 10.0.0.5\<newline>'')
      initial_globals = Inr (True, \<lparr>g_Topic = ''office/relays'', g_Broker = ''10.0.0.5''\<rparr>)"
    by code_simp
  from first readSettings_idempotent [OF first] show ?thesis
    by simp
qed

text \<open>
  C10, as stated, fails. The character dropped is the last one of the line, which is
  the last one of the value only when the value ends the line. When a blank or another
  token follows the value on a final line without newline, the value is stored whole.
\<close>

theorem value_followed_by_blank_counterexample:
  "readSettings (Some ''BROKER 10.0.0.5 '') initial_globals
     = Inr (True, \<lparr>g_Topic = [], g_Broker = ''10.0.0.5''\<rparr>)
   \<and> readSettings (Some ''BROKER 10.0.0.5 x'') initial_globals
     = Inr (True, \<lparr>g_Topic = [], g_Broker = ''10.0.0.5''\<rparr>)"
  by code_simp

text \<open>
  C10, amended. Each line that \<^verbatim>\<open>fgets\<close> returns and that does not start with
  NUL loses its last character before it is tokenised, whether that character is a
  newline or not: what is parsed is the C string in the buffer without its last
  character. So when the text ends, with no newline, in a line of at most 49 characters
  made of optional blanks, a label that upper-cases to \<open>BROKER\<close> or \<open>TOPIC\<close>, one
  or more blanks and a value \<open>v\<close> that ends the line (2 or more characters, none of
  them a space, a newline or NUL), the field is set to \<open>v\<close> without its last character.
\<close>

theorem value_at_line_end_loses_last_character:
  "(fgets BUFFSIZE fp = Some (buffer, fp') \<and> 0 < strlen buffer \<longrightarrow>
      read_lines fp g =
        (case parse_line (butlast (takeWhile (\<lambda>c. c \<noteq> CHR 0x00) buffer)) g of
           Inl e \<Rightarrow> Inl e | Inr g' \<Rightarrow> read_lines fp' g'))
   \<and> ((pre = [] \<or> last pre = CHR 0x0A) \<and> read_lines pre g = Inr g1
        \<and> CHR 0x0A \<notin> set v \<and> CHR 0x00 \<notin> set v \<and> CHR '' '' \<notin> set v
        \<and> 2 \<le> length v \<and> a + length lbl + Suc b + length v \<le> 49 \<longrightarrow>
      (map toupper lbl = ''BROKER'' \<longrightarrow>
         readSettings
           (Some (pre @ replicate a (CHR '' '') @ lbl @ replicate (Suc b) (CHR '' '') @ v)) g
           = Inr (True, g1\<lparr>g_Broker := butlast v\<rparr>))
      \<and> (map toupper lbl = ''TOPIC'' \<longrightarrow>
         readSettings
           (Some (pre @ replicate a (CHR '' '') @ lbl @ replicate (Suc b) (CHR '' '') @ v)) g
           = Inr (True, g1\<lparr>g_Topic := butlast v\<rparr>)))"
proof (intro conjI impI)
  assume "fgets BUFFSIZE fp = Some (buffer, fp') \<and> 0 < strlen buffer"
  then show "read_lines fp g =
        (case parse_line (butlast (takeWhile (\<lambda>c. c \<noteq> CHR 0x00) buffer)) g of
           Inl e \<Rightarrow> Inl e | Inr g' \<Rightarrow> read_lines fp' g')"
    by (simp add: read_lines_step)
next
  let ?line = "replicate a (CHR '' '') @ lbl @ replicate (Suc b) (CHR '' '') @ v"
  assume a: "(pre = [] \<or> last pre = CHR 0x0A) \<and> read_lines pre g = Inr g1
        \<and> CHR 0x0A \<notin> set v \<and> CHR 0x00 \<notin> set v \<and> CHR '' '' \<notin> set v
        \<and> 2 \<le> length v \<and> a + length lbl + Suc b + length v \<le> 49"
    and lbl: "map toupper lbl = ''BROKER''"
  from a have v: "v \<noteq> []" "butlast v \<noteq> []"
    by (cases v; cases "tl v"; auto)+
  from a have "read_lines (pre @ ?line) g = read_lines ?line g1"
    using read_lines_append [of pre ?line g] by simp
  moreover from a v lbl have "read_lines ?line g1 = Inr (g1\<lparr>g_Broker := butlast v\<rparr>)"
    using read_lines_last_labelled [of lbl v a b g1] by simp
  ultimately show "readSettings (Some (pre @ ?line)) g
      = Inr (True, g1\<lparr>g_Broker := butlast v\<rparr>)"
    by (simp add: readSettings_def)
next
  let ?line = "replicate a (CHR '' '') @ lbl @ replicate (Suc b) (CHR '' '') @ v"
  assume a: "(pre = [] \<or> last pre = CHR 0x0A) \<and> read_lines pre g = Inr g1
        \<and> CHR 0x0A \<notin> set v \<and> CHR 0x00 \<notin> set v \<and> CHR '' '' \<notin> set v
        \<and> 2 \<le> length v \<and> a + length lbl + Suc b + length v \<le> 49"
    and lbl: "map toupper lbl = ''TOPIC''"
  from a have v: "v \<noteq> []" "butlast v \<noteq> []"
    by (cases v; cases "tl v"; auto)+
  from a have "read_lines (pre @ ?line) g = read_lines ?line g1"
    using read_lines_append [of pre ?line g] by simp
  moreover from a v lbl have "read_lines ?line g1 = Inr (g1\<lparr>g_Topic := butlast v\<rparr>)"
    using read_lines_last_labelled [of lbl v a b g1] by simp
  ultimately show "readSettings (Some (pre @ ?line)) g
      = Inr (True, g1\<lparr>g_Topic := butlast v\<rparr>)"
    by (simp add: readSettings_def)
qed

theorem value_at_line_end_loses_last_character_witness:
  "readSettings (Some ''BROKER 10.0.0.5'') initial_globals
     = Inr (True, \<lparr>g_Topic = [], g_Broker = ''10.0.0.''\<rparr>)
   \<and> readSettings (Some ''TOPIC a/b\<newline>  broker   10.0.0.5'') initial_globals
     = Inr (True, \<lparr>g_Topic = ''a/b'', g_Broker = ''10.0.0.''\<rparr>)"
proof -
  have f: "fgets BUFFSIZE ''BROKER 10.0.0.5'' = Some (''BROKER 10.0.0.5'', [])"
    by code_simp
  have n: "0 < strlen ''BROKER 10.0.0.5''"
    by code_simp
  have r: "read_lines [] initial_globals = Inr initial_globals"
    by code_simp
  have p: "read_lines ''TOPIC a/b\<newline>'' initial_globals = Inr \<lparr>g_Topic = ''a/b'', g_Broker = []\<rparr>"
    by code_simp
  have u: "map toupper ''BROKER'' = ''BROKER''" "map toupper ''broker'' = ''BROKER''"
    by code_simp+
  from value_at_line_end_loses_last_character
    [of "''BROKER 10.0.0.5''" "''BROKER 10.0.0.5''" "[]" initial_globals "[]" initial_globals
      "''10.0.0.5''" 0 "''BROKER''" 0] f n r u(1)
  have one: "readSettings (Some ''BROKER 10.0.0.5'') initial_globals
     = Inr (True, \<lparr>g_Topic = [], g_Broker = ''10.0.0.''\<rparr>)"
    by (simp add: initial_globals_def)
  from value_at_line_end_loses_last_character
    [of "[]" "[]" "[]" initial_globals "''TOPIC a/b\<newline>''"
      "\<lparr>g_Topic = ''a/b'', g_Broker = []\<rparr>" "''10.0.0.5''" 2 "''broker''" 2] p u(2)
  have two: "readSettings (Some ''TOPIC a/b\<newline>  broker   10.0.0.5'') initial_globals
     = Inr (True, \<lparr>g_Topic = ''a/b'', g_Broker = ''10.0.0.''\<rparr>)"
    by (simp add: numeral_2_eq_2)
  from one two show ?thesis
    by simp
qed

section \<open>Properties of startup\<close>

text \<open>
  The loop of \<^verbatim>\<open>gpioSetup\<close> from \<open>i\<close> on gives each pin from \<open>i\<close> to 15
  the mode OUTPUT and the level HIGH, touches no other pin and makes no transport call.
\<close>

lemma last_level_append:
  "last_level (xs @ ys) p =
     (case last_level ys p of Some l \<Rightarrow> Some l | None \<Rightarrow> last_level xs p)"
  by (induction xs) (auto split: option.splits)

lemma last_mode_append:
  "last_mode (xs @ ys) p =
     (case last_mode ys p of Some m \<Rightarrow> Some m | None \<Rightarrow> last_mode xs p)"
  by (induction xs) (auto split: option.splits)

lemma last_level_gpio_loop:
  "last_level (gpio_loop i) p = (if i \<le> p \<and> p < 16 then Some HIGH else None)"
proof (induction i rule: gpio_loop.induct)
  case (1 i)
  show ?case
  proof (cases "i < 16")
    case True
    with "1.IH" show ?thesis
      by (subst gpio_loop.simps) auto
  next
    case False
    then show ?thesis
      by (subst gpio_loop.simps) simp
  qed
qed

lemma last_mode_gpio_loop:
  "last_mode (gpio_loop i) p = (if i \<le> p \<and> p < 16 then Some OUTPUT else None)"
proof (induction i rule: gpio_loop.induct)
  case (1 i)
  show ?case
  proof (cases "i < 16")
    case True
    with "1.IH" show ?thesis
      by (subst gpio_loop.simps) auto
  next
    case False
    then show ?thesis
      by (subst gpio_loop.simps) simp
  qed
qed

lemma gpio_loop_no_connect: "c \<in> set (gpio_loop i) \<Longrightarrow> \<not> is_connect c"
proof (induction i rule: gpio_loop.induct)
  case (1 i)
  show ?case
  proof (cases "i < 16")
    case True
    with 1 show ?thesis
      by (subst (asm) gpio_loop.simps) auto
  next
    case False
    with "1.prems" show ?thesis
      by (subst (asm) gpio_loop.simps) simp
  qed
qed

lemma before_connect_main:
  "wiringPiSetup_rc e = 0 \<Longrightarrow>
   \<exists>rest. before_connect (fst (main_after_settings e g)) = WiringPiSetup # gpio_loop 0 @ MosqLibInit # MosqNew # rest
     \<and> (\<forall>p. last_level rest p = None \<and> last_mode rest p = None)"
  by (auto simp: before_connect_def main_after_settings_def gpioSetup_def Let_def
      gpio_loop_no_connect)

text \<open>
  C6. When the settings file cannot be opened, \<^verbatim>\<open>readSettings\<close> returns
  normally with topic \<open>relays\<close> and broker \<open>192.168.0.1\<close>, and \<^verbatim>\<open>main\<close>
  goes on with them: it sets up the pins, initialises the transport library and,
  once the client exists, connects to \<open>192.168.0.1\<close>.
\<close>

theorem missing_source_gives_defaults:
  assumes "settings_file e = None"
  shows "readSettings (settings_file e) g
           = Inr (False, \<lparr>g_Topic = ''relays'', g_Broker = ''192.168.0.1''\<rparr>)
       \<and> main e
           = Inr (main_after_settings e \<lparr>g_Topic = ''relays'', g_Broker = ''192.168.0.1''\<rparr>)
       \<and> (\<exists>rest. fst (main_after_settings e
                   \<lparr>g_Topic = ''relays'', g_Broker = ''192.168.0.1''\<rparr>)
             = gpioSetup (wiringPiSetup_rc e) @ MosqLibInit # MosqNew # rest)
       \<and> (mosquitto_new_ok e \<longrightarrow>
            MosqConnect ''192.168.0.1'' 1883 60
              \<in> set (fst (main_after_settings e
                   \<lparr>g_Topic = ''relays'', g_Broker = ''192.168.0.1''\<rparr>)))"
  using assms
  by (simp add: readSettings_def main_def initial_globals_def main_after_settings_def Let_def)

theorem missing_source_gives_defaults_witness:
  "settings_file \<lparr>settings_file = None, wiringPiSetup_rc = 0, mosquitto_new_ok = True,
       mosquitto_connect_ok = True, loop_returns = False\<rparr> = None
   \<and> readSettings None initial_globals
       = Inr (False, \<lparr>g_Topic = ''relays'', g_Broker = ''192.168.0.1''\<rparr>)
   \<and> main \<lparr>settings_file = None, wiringPiSetup_rc = 0, mosquitto_new_ok = True,
       mosquitto_connect_ok = True, loop_returns = False\<rparr>
       = Inr (main_after_settings \<lparr>settings_file = None, wiringPiSetup_rc = 0,
                mosquitto_new_ok = True, mosquitto_connect_ok = True, loop_returns = False\<rparr>
              \<lparr>g_Topic = ''relays'', g_Broker = ''192.168.0.1''\<rparr>)"
  using missing_source_gives_defaults
    [of "\<lparr>settings_file = None, wiringPiSetup_rc = 0, mosquitto_new_ok = True,
          mosquitto_connect_ok = True, loop_returns = False\<rparr>" initial_globals]
  by simp

text \<open>
  C7, as stated, fails. The pins are set up only if \<^verbatim>\<open>wiringPiSetup()\<close> returned
  0. When it returns \<open>-1\<close>, \<^verbatim>\<open>main\<close> still goes on to connect, and no pin has
  been given a mode or a level by then.
\<close>

theorem failed_pin_setup_counterexample:
  "main \<lparr>settings_file = None, wiringPiSetup_rc = - 1, mosquitto_new_ok = True,
         mosquitto_connect_ok = True, loop_returns = False\<rparr>
     = Inr ([WiringPiSetup, MosqLibInit, MosqNew, ConnectCallbackSet, SubscribeCallbackSet,
             MessageCallbackSet, MosqConnect ''192.168.0.1'' 1883 60, MosqLoopForever], None)
   \<and> before_connect
         [WiringPiSetup, MosqLibInit, MosqNew, ConnectCallbackSet, SubscribeCallbackSet,
          MessageCallbackSet, MosqConnect ''192.168.0.1'' 1883 60, MosqLoopForever]
     = [WiringPiSetup, MosqLibInit, MosqNew, ConnectCallbackSet, SubscribeCallbackSet,
        MessageCallbackSet]
   \<and> last_mode [WiringPiSetup, MosqLibInit, MosqNew, ConnectCallbackSet,
         SubscribeCallbackSet, MessageCallbackSet] 0 = None
   \<and> last_level [WiringPiSetup, MosqLibInit, MosqNew, ConnectCallbackSet,
         SubscribeCallbackSet, MessageCallbackSet] 0 = None"
  by code_simp

text \<open>
  C7, amended. When \<^verbatim>\<open>wiringPiSetup()\<close> returns 0, then among the calls that
  \<^verbatim>\<open>main\<close> makes before the broker connect each pin 0 to 15 has been made an
  output and the last level written to it is HIGH.
\<close>

theorem pins_high_before_connect:
  assumes "wiringPiSetup_rc e = 0" and "main e = Inr (tr, st)" and "0 \<le> p" and "p \<le> 15"
  shows "last_mode (before_connect tr) p = Some OUTPUT
       \<and> last_level (before_connect tr) p = Some HIGH"
proof -
  from assms(2) have "\<exists>g. main_after_settings e g = (tr, st)"
    by (auto simp: main_def split: sum.splits)
  then obtain g where "main_after_settings e g = (tr, st)" ..
  then have tr: "tr = fst (main_after_settings e g)"
    by simp
  from before_connect_main [OF assms(1), of g] tr obtain rest
    where b: "before_connect tr = (WiringPiSetup # gpio_loop 0) @ MosqLibInit # MosqNew # rest"
      and r: "\<forall>p. last_level rest p = None \<and> last_mode rest p = None"
    by auto
  from assms(3,4) r show ?thesis
    unfolding b last_level_append last_mode_append
    by (simp add: last_level_gpio_loop last_mode_gpio_loop)
qed

theorem pins_high_before_connect_witness:
  "wiringPiSetup_rc \<lparr>settings_file = None, wiringPiSetup_rc = 0, mosquitto_new_ok = True,
       mosquitto_connect_ok = True, loop_returns = False\<rparr> = 0
   \<and> main \<lparr>settings_file = None, wiringPiSetup_rc = 0, mosquitto_new_ok = True,
       mosquitto_connect_ok = True, loop_returns = False\<rparr>
     = Inr (WiringPiSetup # gpio_loop 0 @
            [MosqLibInit, MosqNew, ConnectCallbackSet, SubscribeCallbackSet,
             MessageCallbackSet, MosqConnect ''192.168.0.1'' 1883 60, MosqLoopForever], None)
   \<and> (0::int) \<le> 7 \<and> (7::int) \<le> 15
   \<and> last_mode (before_connect (WiringPiSetup # gpio_loop 0 @
            [MosqLibInit, MosqNew, ConnectCallbackSet, SubscribeCallbackSet,
             MessageCallbackSet, MosqConnect ''192.168.0.1'' 1883 60, MosqLoopForever])) 7
       = Some OUTPUT
   \<and> last_level (before_connect (WiringPiSetup # gpio_loop 0 @
            [MosqLibInit, MosqNew, ConnectCallbackSet, SubscribeCallbackSet,
             MessageCallbackSet, MosqConnect ''192.168.0.1'' 1883 60, MosqLoopForever])) 7
       = Some HIGH"
proof -
  have run: "main \<lparr>settings_file = None, wiringPiSetup_rc = 0, mosquitto_new_ok = True,
       mosquitto_connect_ok = True, loop_returns = False\<rparr>
     = Inr (WiringPiSetup # gpio_loop 0 @
            [MosqLibInit, MosqNew, ConnectCallbackSet, SubscribeCallbackSet,
             MessageCallbackSet, MosqConnect ''192.168.0.1'' 1883 60, MosqLoopForever], None)"
    by (simp add: main_def readSettings_def initial_globals_def main_after_settings_def
        gpioSetup_def)
  from run pins_high_before_connect [OF _ run, of 7] show ?thesis
    by simp
qed

end
